theory Spec2Isabelle
  imports Complex_Main "HOL-Library.Word" "HOL-Library.Signed_Division"
begin

unbundle bit_operations_syntax

section \<open>The ring buffer of debugSerial\<close>

text \<open>
  \<^verbatim>\<open>#define DEBUG_BUFFER_SIZE 100\<close> (debugSerial.h). The structure
  \<^verbatim>\<open>debugRingBuffer_t\<close> holds the storage array \<^verbatim>\<open>char debugBuffer[DEBUG_BUFFER_SIZE]\<close>
  and the two cursors, both \<^verbatim>\<open>volatile uint8_t\<close>. The array is a list; that its length is
  \<open>DEBUG_BUFFER_SIZE\<close> is part of the predicate \<open>rb_wf\<close> below.
\<close>

definition DEBUG_BUFFER_SIZE :: nat where
  "DEBUG_BUFFER_SIZE = 100"

record debugRingBuffer_t =
  debugBuffer :: "char list"
  debugHead :: "8 word"
  debugTail :: "8 word"

text \<open>
  The functions take the buffer by pointer. One that writes through the pointer returns
  its C result paired with the buffer after the call; a \<^verbatim>\<open>void\<close> result is \<open>()\<close>.
  The two predicates only read.
\<close>

definition debug_buffer_init :: "debugRingBuffer_t \<Rightarrow> unit \<times> debugRingBuffer_t" where
  "debug_buffer_init buf = ((), buf\<lparr>debugHead := 0, debugTail := 0\<rparr>)"

definition debug_buffer_is_empty :: "debugRingBuffer_t \<Rightarrow> bool" where
  "debug_buffer_is_empty buf \<longleftrightarrow> debugHead buf = debugTail buf"

text \<open>
  In \<^verbatim>\<open>(buf->debugHead + 1) % DEBUG_BUFFER_SIZE\<close> the cursor is promoted to \<^verbatim>\<open>int\<close>
  before the addition, so the sum does not wrap at 256; the comparison with the tail is
  on \<^verbatim>\<open>int\<close> as well.
\<close>

definition debug_buffer_is_full :: "debugRingBuffer_t \<Rightarrow> bool" where
  "debug_buffer_is_full buf \<longleftrightarrow>
     (unat (debugHead buf) + 1) mod DEBUG_BUFFER_SIZE = unat (debugTail buf)"

definition debug_buffer_put :: "debugRingBuffer_t \<Rightarrow> char \<Rightarrow> unit \<times> debugRingBuffer_t" where
  "debug_buffer_put buf data =
     (if \<not> debug_buffer_is_full buf
      then ((), buf\<lparr>debugBuffer := (debugBuffer buf)[unat (debugHead buf) := data],
                    debugHead := of_nat ((unat (debugHead buf) + 1) mod DEBUG_BUFFER_SIZE)\<rparr>)
      else ((), buf))"

text \<open>
  \<^verbatim>\<open>bool debug_buffer_get(debugRingBuffer_t *buf, char *data)\<close> returns \<^verbatim>\<open>true\<close> and
  writes \<^verbatim>\<open>*data\<close>, or returns \<^verbatim>\<open>false\<close> and leaves \<^verbatim>\<open>*data\<close> alone: \<open>Some\<close> of the
  byte written, or \<open>None\<close>.
\<close>

definition debug_buffer_get :: "debugRingBuffer_t \<Rightarrow> char option \<times> debugRingBuffer_t" where
  "debug_buffer_get buf =
     (if \<not> debug_buffer_is_empty buf
      then (Some (debugBuffer buf ! unat (debugTail buf)),
            buf\<lparr>debugTail := of_nat ((unat (debugTail buf) + 1) mod DEBUG_BUFFER_SIZE)\<rparr>)
      else (None, buf))"

text \<open>
  The range predicate of the cursors, and the well-formedness of a buffer: the array has
  its declared length and both cursors index it.
\<close>

definition rb_inv :: "debugRingBuffer_t \<Rightarrow> bool" where
  "rb_inv buf \<longleftrightarrow>
     unat (debugHead buf) < DEBUG_BUFFER_SIZE \<and> unat (debugTail buf) < DEBUG_BUFFER_SIZE"

definition rb_wf :: "debugRingBuffer_t \<Rightarrow> bool" where
  "rb_wf buf \<longleftrightarrow> length (debugBuffer buf) = DEBUG_BUFFER_SIZE \<and> rb_inv buf"

section \<open>The queue a buffer holds\<close>

text \<open>
  The bytes queued in a buffer, oldest first: the cells from the tail cursor up to, and
  not including, the head cursor, going round the array.
\<close>

definition rb_count :: "debugRingBuffer_t \<Rightarrow> nat" where
  "rb_count buf =
     (unat (debugHead buf) + DEBUG_BUFFER_SIZE - unat (debugTail buf)) mod DEBUG_BUFFER_SIZE"

definition rb_contents :: "debugRingBuffer_t \<Rightarrow> char list" where
  "rb_contents buf =
     map (\<lambda>i. debugBuffer buf ! ((unat (debugTail buf) + i) mod DEBUG_BUFFER_SIZE))
       [0..<rb_count buf]"

section \<open>Sequences of calls\<close>

text \<open>
  A caller's sequence of \<^verbatim>\<open>debug_buffer_put\<close> and \<^verbatim>\<open>debug_buffer_get\<close> calls:
  \<open>rb_run\<close> makes the calls in order and collects what each get returned,
  \<open>rb_admissible\<close> says that no put meets a full buffer and no get an empty one,
  \<open>rb_puts\<close> lists the bytes passed to put and \<open>rb_gets\<close> counts the gets.
\<close>

datatype rb_call = Put char | Get

fun rb_run :: "rb_call list \<Rightarrow> debugRingBuffer_t \<Rightarrow> char option list \<times> debugRingBuffer_t" where
  "rb_run [] buf = ([], buf)"
| "rb_run (Put data # calls) buf = rb_run calls (snd (debug_buffer_put buf data))"
| "rb_run (Get # calls) buf =
     (fst (debug_buffer_get buf) # fst (rb_run calls (snd (debug_buffer_get buf))),
      snd (rb_run calls (snd (debug_buffer_get buf))))"

fun rb_admissible :: "rb_call list \<Rightarrow> debugRingBuffer_t \<Rightarrow> bool" where
  "rb_admissible [] buf \<longleftrightarrow> True"
| "rb_admissible (Put data # calls) buf \<longleftrightarrow>
     \<not> debug_buffer_is_full buf \<and> rb_admissible calls (snd (debug_buffer_put buf data))"
| "rb_admissible (Get # calls) buf \<longleftrightarrow>
     \<not> debug_buffer_is_empty buf \<and> rb_admissible calls (snd (debug_buffer_get buf))"

fun rb_puts :: "rb_call list \<Rightarrow> char list" where
  "rb_puts [] = []"
| "rb_puts (Put data # calls) = data # rb_puts calls"
| "rb_puts (Get # calls) = rb_puts calls"

fun rb_gets :: "rb_call list \<Rightarrow> nat" where
  "rb_gets [] = 0"
| "rb_gets (Put data # calls) = rb_gets calls"
| "rb_gets (Get # calls) = Suc (rb_gets calls)"

text \<open>
  The buffers a program can reach: \<^verbatim>\<open>debug_buffer_init\<close> applied to any buffer, then
  any number of puts and gets. (The two predicates do not write.)
\<close>

inductive rb_reachable :: "debugRingBuffer_t \<Rightarrow> bool" where
  reach_init: "rb_reachable (snd (debug_buffer_init buf))"
| reach_put: "rb_reachable buf \<Longrightarrow> rb_reachable (snd (debug_buffer_put buf data))"
| reach_get: "rb_reachable buf \<Longrightarrow> rb_reachable (snd (debug_buffer_get buf))"

text \<open>A run of puts, one for each byte of a list, in order.\<close>

fun debug_buffer_puts :: "char list \<Rightarrow> debugRingBuffer_t \<Rightarrow> debugRingBuffer_t" where
  "debug_buffer_puts [] buf = buf"
| "debug_buffer_puts (data # rest) buf = debug_buffer_puts rest (snd (debug_buffer_put buf data))"

section \<open>The transmit driver\<close>

text \<open>
  Bit numbers of the USART1 registers of the ATmega328PB, from the device header that
  \<^verbatim>\<open>avr/io.h\<close> includes (not part of the repository).
\<close>

definition U2X1 :: nat where
  "U2X1 = 1"

definition TXEN1 :: nat where
  "TXEN1 = 3"

definition UDRIE1 :: nat where
  "UDRIE1 = 5"

definition UCSZ10 :: nat where
  "UCSZ10 = 1"

definition UCSZ11 :: nat where
  "UCSZ11 = 2"

text \<open>
  The state the driver works on: the static \<^verbatim>\<open>debugTxBuffer\<close>, the USART1 registers it
  writes, and the global interrupt flag of the status register. \<^verbatim>\<open>UDR1\<close> is the transmit
  data register: a byte written to it is sent, so the field lists the bytes written, in
  order.
\<close>

record mcu_state =
  debugTxBuffer :: debugRingBuffer_t
  UBRR1H :: "8 word"
  UBRR1L :: "8 word"
  UCSR1A :: "8 word"
  UCSR1B :: "8 word"
  UCSR1C :: "8 word"
  UDR1 :: "char list"
  SREG_I :: bool

text \<open>\<^verbatim>\<open>cli()\<close> and \<^verbatim>\<open>sei()\<close> of \<^verbatim>\<open>avr/interrupt.h\<close>.\<close>

definition cli :: "mcu_state \<Rightarrow> mcu_state" where
  "cli s = s\<lparr>SREG_I := False\<rparr>"

definition sei :: "mcu_state \<Rightarrow> mcu_state" where
  "sei s = s\<lparr>SREG_I := True\<rparr>"

text \<open>
  \<^verbatim>\<open>debugSerialBegin\<close>. The macro \<^verbatim>\<open>F_CPU\<close> comes from the build and is an argument
  here. \<^verbatim>\<open>8UL * debugBaud\<close> is computed in 32-bit \<^verbatim>\<open>unsigned long\<close>; a zero divisor is
  undefined in C and is the result \<open>None\<close>. The quotient less one is cut to the 16 bits of
  \<^verbatim>\<open>ubrr\<close>.
\<close>

definition debugSerialBegin :: "32 word \<Rightarrow> 32 word \<Rightarrow> mcu_state \<Rightarrow> mcu_state option" where
  "debugSerialBegin F_CPU debugBaud s =
     (if 8 * debugBaud = 0 then None
      else
        let ubrr = (ucast (F_CPU div (8 * debugBaud) - 1) :: 16 word)
        in Some (s\<lparr>UBRR1H := ucast (drop_bit 8 ubrr),
                    UBRR1L := ucast ubrr,
                    UCSR1A := UCSR1A s OR push_bit U2X1 1,
                    UCSR1B := push_bit TXEN1 1 OR push_bit UDRIE1 1,
                    UCSR1C := push_bit UCSZ11 1 OR push_bit UCSZ10 1,
                    debugTxBuffer := snd (debug_buffer_init (debugTxBuffer s))\<rparr>))"

text \<open>
  \<^verbatim>\<open>uart1_print_char\<close>: \<^verbatim>\<open>cli()\<close>, then the three statements between (lines 125 to 129,
  \<open>uart1_print_char_locked\<close>), then \<^verbatim>\<open>sei()\<close>.
\<close>

definition uart1_print_char_locked :: "char \<Rightarrow> mcu_state \<Rightarrow> mcu_state" where
  "uart1_print_char_locked data s =
     (let was_empty = debug_buffer_is_empty (debugTxBuffer s);
          s' = s\<lparr>debugTxBuffer := snd (debug_buffer_put (debugTxBuffer s) data)\<rparr>
      in if was_empty then s'\<lparr>UCSR1B := UCSR1B s' OR push_bit UDRIE1 1\<rparr> else s')"

definition uart1_print_char :: "char \<Rightarrow> mcu_state \<Rightarrow> mcu_state" where
  "uart1_print_char data s = sei (uart1_print_char_locked data (cli s))"

text \<open>
  The body of \<^verbatim>\<open>ISR(USART1_UDRE_vect)\<close>. When the hardware runs it, and what the hardware
  does to the interrupt flag around it, is not modelled.
\<close>

definition USART1_UDRE_vect :: "mcu_state \<Rightarrow> mcu_state" where
  "USART1_UDRE_vect s =
     (case debug_buffer_get (debugTxBuffer s) of
        (Some data, buf) \<Rightarrow> s\<lparr>debugTxBuffer := buf, UDR1 := UDR1 s @ [data]\<rparr>
      | (None, buf) \<Rightarrow> s\<lparr>debugTxBuffer := buf, UCSR1B := UCSR1B s AND NOT (push_bit UDRIE1 1)\<rparr>)"

text \<open>
  The data-register-empty interrupt is armed when bit \<^verbatim>\<open>UDRIE1\<close> of \<^verbatim>\<open>UCSR1B\<close> is set.
  The driver's entry points that write \<^verbatim>\<open>UCSR1B\<close> or the buffer directly are
  \<^verbatim>\<open>debugSerialBegin\<close>, \<^verbatim>\<open>uart1_print_char\<close> and the interrupt routine; every print
  function works through calls of \<^verbatim>\<open>uart1_print_char\<close>.
\<close>

definition armed :: "mcu_state \<Rightarrow> bool" where
  "armed s \<longleftrightarrow> bit (UCSR1B s) UDRIE1"

datatype driver_call = Begin "32 word" | Emit char | Drain

fun driver_step :: "32 word \<Rightarrow> driver_call \<Rightarrow> mcu_state \<Rightarrow> mcu_state option" where
  "driver_step F_CPU (Begin debugBaud) s = debugSerialBegin F_CPU debugBaud s"
| "driver_step F_CPU (Emit data) s = Some (uart1_print_char data s)"
| "driver_step F_CPU Drain s = Some (USART1_UDRE_vect s)"

text \<open>
  A state for examples: every register zero, the buffer zero-filled with both cursors 0,
  nothing sent, interrupts disabled.
\<close>

definition mcu_zero :: mcu_state where
  "mcu_zero =
     \<lparr>debugTxBuffer = \<lparr>debugBuffer = replicate 100 (CHR 0x00), debugHead = 0, debugTail = 0\<rparr>,
      UBRR1H = 0, UBRR1L = 0, UCSR1A = 0, UCSR1B = 0, UCSR1C = 0, UDR1 = [], SREG_I = False\<rparr>"

section \<open>Printing an integer\<close>

text \<open>
  \<^verbatim>\<open>debugPrintInt(int32_t value)\<close>. The value is a 32-bit word read as two's complement
  (\<open>sint\<close>); \<^verbatim>\<open>value = -value\<close> is the negation of the word, which wraps. Division and
  remainder are C's, truncating towards zero (\<open>sdiv\<close> and \<open>smod\<close> on \<open>int\<close>).

  The first loop, \<^verbatim>\<open>while (value > 0) { digits[count++] = '0' + (value % 10); value /= 10; }\<close>,
  writes into \<^verbatim>\<open>char digits[10]\<close>. A write at an index outside the array is undefined in C and
  is the result \<open>None\<close>. The division of a positive value by 10 stays in range, which
  the termination proof needs.
\<close>

lemma sint_sdiv_10:
  fixes v :: "32 word"
  assumes "0 < sint v"
  shows "sint (word_of_int (sint v sdiv 10) :: 32 word) = sint v div 10"
proof -
  have eq: "sint v sdiv 10 = sint v div 10"
    using assms by (simp add: signed_divide_int_def)
  have "sint v < 2 ^ 31"
    using sint_lt [of v] by simp
  with assms have "- (2 ^ 31) \<le> sint v div 10" "sint v div 10 < 2 ^ 31"
    by simp_all
  then have "signed_take_bit 31 (sint v div 10) = sint v div 10"
    by (simp add: signed_take_bit_int_eq_self)
  with eq show ?thesis
    by (simp add: sint_sbintrunc')
qed

function debugPrintInt_extract :: "32 word \<Rightarrow> char list \<Rightarrow> nat \<Rightarrow> (char list \<times> nat) option" where
  "debugPrintInt_extract value digits count =
     (if 0 < sint value then
        (if count < length digits
         then debugPrintInt_extract (word_of_int (sint value sdiv 10))
                (digits[count := char_of (48 + sint value smod 10)]) (Suc count)
         else None)
      else Some (digits, count))"
  by pat_completeness auto
termination
proof (relation "measure (\<lambda>(value, digits, count). nat (sint value))")
  show "wf (measure (\<lambda>(value, digits, count). nat (sint value)))"
    by simp
next
  fix "value" :: "32 word" and digits :: "char list" and count :: nat
  assume "0 < sint value"
  then show "((word_of_int (sint value sdiv 10),
               digits[count := char_of (48 + sint value smod 10)], Suc count),
              value, digits, count)
             \<in> measure (\<lambda>(value, digits, count). nat (sint value))"
    using sint_sdiv_10 [of "value"] by simp
qed

text \<open>The second loop, \<^verbatim>\<open>while (count > 0) uart1_print_char(digits[--count]);\<close>.\<close>

fun debugPrintInt_emit :: "char list \<Rightarrow> nat \<Rightarrow> mcu_state \<Rightarrow> mcu_state" where
  "debugPrintInt_emit digits 0 s = s"
| "debugPrintInt_emit digits (Suc count) s =
     debugPrintInt_emit digits count (uart1_print_char (digits ! count) s)"

text \<open>
  The array is not initialised in C; the second loop reads only cells that the first has
  written, and the model starts from zero bytes.
\<close>

definition debugPrintInt :: "32 word \<Rightarrow> mcu_state \<Rightarrow> mcu_state option" where
  "debugPrintInt value s =
     (let (s1, value1) =
            (if sint value < 0 then (uart1_print_char CHR ''-'' s, - value) else (s, value))
      in if value1 = 0 then Some (uart1_print_char CHR ''0'' s1)
         else case debugPrintInt_extract value1 (replicate 10 (CHR 0x00)) 0 of
                None \<Rightarrow> None
              | Some (digits, count) \<Rightarrow> Some (debugPrintInt_emit digits count s1))"

declare debugPrintInt_extract.simps [simp del]

section \<open>Printing a floating-point number\<close>

text \<open>
  \<^verbatim>\<open>debugPrintFloat(float value, uint8_t decimalPlaces)\<close>. A finite \<^verbatim>\<open>float\<close> is the
  rational number it denotes; infinities and NaN are not modelled. Each float-valued
  operation of the source (the conversion of a decimal literal or of an integer to
  \<^verbatim>\<open>float\<close>, a product, a difference) yields the exact result passed through the rounding
  \<open>rnd\<close> of the target's float arithmetic, which is an argument of the model. Negation
  is exact.

  The casts \<^verbatim>\<open>(int32_t)value\<close> and \<^verbatim>\<open>(int)decimalPart\<close> truncate towards zero (\<open>f2i\<close>);
  a result outside the integer type (32 bits for \<^verbatim>\<open>int32_t\<close>, 16 bits for \<^verbatim>\<open>int\<close> on the
  AVR) is undefined in C and is the result \<open>None\<close>.
\<close>

definition f2i :: "rat \<Rightarrow> int" where
  "f2i x = (if 0 \<le> x then \<lfloor>x\<rfloor> else - \<lfloor>- x\<rfloor>)"

text \<open>
  The loop \<^verbatim>\<open>for (uint8_t i = 0; i < decimalPlaces; i++)\<close>, by the number of iterations
  still to run.
\<close>

fun debugPrintFloat_loop :: "(rat \<Rightarrow> rat) \<Rightarrow> nat \<Rightarrow> rat \<Rightarrow> mcu_state \<Rightarrow> mcu_state option" where
  "debugPrintFloat_loop rnd 0 decimalPart s = Some s"
| "debugPrintFloat_loop rnd (Suc n) decimalPart s =
     (let decimalPart' = rnd (decimalPart * rnd 10);
          digit = f2i decimalPart'
      in if digit < - 32768 \<or> 32767 < digit then None
         else debugPrintFloat_loop rnd n (rnd (decimalPart' - rnd (of_int digit)))
                (uart1_print_char (char_of (48 + digit)) s))"

definition debugPrintFloat :: "(rat \<Rightarrow> rat) \<Rightarrow> rat \<Rightarrow> 8 word \<Rightarrow> mcu_state \<Rightarrow> mcu_state option" where
  "debugPrintFloat rnd value decimalPlaces s =
     (let (s1, value1) =
            (if value < 0 then (uart1_print_char CHR ''-'' s, - value) else (s, value));
          intPart = f2i value1
      in if intPart < - 2147483648 \<or> 2147483647 < intPart then None
         else case debugPrintInt (word_of_int intPart) s1 of
                None \<Rightarrow> None
              | Some s2 \<Rightarrow>
                  if 0 < unat decimalPlaces
                  then debugPrintFloat_loop rnd (unat decimalPlaces)
                         (rnd (value1 - rnd (of_int intPart))) (uart1_print_char CHR ''.'' s2)
                  else Some s2)"

text \<open>
  A rounding is accurate to one part in a million on the magnitudes between 1/100 and
  100. The rounding of IEEE single precision is, in each of its rounding modes (its
  relative error there is at most \<open>2\<^sup>-\<^sup>2\<^sup>3\<close>).
\<close>

definition rnd_ok :: "(rat \<Rightarrow> rat) \<Rightarrow> bool" where
  "rnd_ok rnd \<longleftrightarrow> (\<forall>x. 1 / 100 \<le> \<bar>x\<bar> \<and> \<bar>x\<bar> \<le> 100 \<longrightarrow> \<bar>rnd x - x\<bar> \<le> \<bar>x\<bar> / 1000000)"

section \<open>Basic facts about the cursors\<close>

lemma unat_cursor_step:
  "unat (of_nat (Suc n mod DEBUG_BUFFER_SIZE) :: 8 word) = Suc n mod DEBUG_BUFFER_SIZE"
proof -
  have "Suc n mod DEBUG_BUFFER_SIZE < 100"
    by (simp add: DEBUG_BUFFER_SIZE_def)
  then have "Suc n mod DEBUG_BUFFER_SIZE < 2 ^ LENGTH(8)"
    by simp
  then show ?thesis
    by (simp only: unat_of_nat mod_less)
qed

lemma rb_inv_init: "rb_inv (snd (debug_buffer_init buf))"
  by (simp add: rb_inv_def debug_buffer_init_def DEBUG_BUFFER_SIZE_def)

lemma rb_inv_put: "rb_inv buf \<Longrightarrow> rb_inv (snd (debug_buffer_put buf data))"
  by (simp add: rb_inv_def debug_buffer_put_def unat_cursor_step)

lemma rb_inv_get: "rb_inv buf \<Longrightarrow> rb_inv (snd (debug_buffer_get buf))"
  by (simp add: rb_inv_def debug_buffer_get_def unat_cursor_step)

lemma Suc_mod_size_neq: "Suc n mod DEBUG_BUFFER_SIZE \<noteq> n"
proof
  assume h: "Suc n mod DEBUG_BUFFER_SIZE = n"
  have "Suc n mod DEBUG_BUFFER_SIZE < 100"
    by (simp add: DEBUG_BUFFER_SIZE_def)
  with h have lt: "n < 100"
    by simp
  show False
  proof (cases "n = 99")
    case True
    with h show False
      by (simp add: DEBUG_BUFFER_SIZE_def)
  next
    case False
    with lt have "Suc n < 100"
      by simp
    then have "Suc n mod DEBUG_BUFFER_SIZE = Suc n"
      by (simp add: DEBUG_BUFFER_SIZE_def)
    with h show False
      by simp
  qed
qed

lemma not_empty_and_full:
  "\<not> (debug_buffer_is_empty buf \<and> debug_buffer_is_full buf)"
  using Suc_mod_size_neq [of "unat (debugTail buf)"]
  by (simp add: debug_buffer_is_empty_def debug_buffer_is_full_def)

section \<open>Ring arithmetic\<close>

lemma ring_count_cases:
  fixes h t C :: nat
  assumes "h < C" "t < C"
  shows "(h + C - t) mod C = (if t \<le> h then h - t else h + C - t)"
proof (cases "t \<le> h")
  case True
  then have "h + C - t = (h - t) + C" by simp
  then have "(h + C - t) mod C = (h - t) mod C" by simp
  with True assms show ?thesis by simp
next
  case False
  with assms show ?thesis by simp
qed

lemma ring_count_suc:
  fixes h t C :: nat
  assumes "h < C" "t < C" "Suc h mod C \<noteq> t"
  shows "(Suc h mod C + C - t) mod C = Suc ((h + C - t) mod C)"
proof (cases "Suc h = C")
  case True
  with assms have t: "0 < t" "t \<le> h" by auto
  have l: "(Suc h mod C + C - t) mod C = C - t"
    using True t assms by simp
  have r: "(h + C - t) mod C = h - t"
    using ring_count_cases [OF assms(1,2)] t by simp
  show ?thesis
    using l r True t by simp
next
  case False
  with assms have lt: "Suc h < C" by simp
  then have m: "Suc h mod C = Suc h" by simp
  with assms have ne: "t \<noteq> Suc h" by auto
  have l: "(Suc h + C - t) mod C = (if t \<le> Suc h then Suc h - t else Suc h + C - t)"
    using ring_count_cases [OF lt assms(2)] .
  have r: "(h + C - t) mod C = (if t \<le> h then h - t else h + C - t)"
    using ring_count_cases [OF assms(1,2)] .
  show ?thesis
  proof (cases "t \<le> h")
    case True
    then show ?thesis using l r m by (simp add: Suc_diff_le)
  next
    case False
    with ne have "\<not> t \<le> Suc h" by simp
    then show ?thesis using l r m False assms by (simp add: Suc_diff_le)
  qed
qed

lemma ring_index_head:
  fixes h t C :: nat
  assumes "h < C" "t < C"
  shows "(t + (h + C - t) mod C) mod C = h"
proof (cases "t \<le> h")
  case True
  then show ?thesis using ring_count_cases [OF assms] assms by simp
next
  case False
  then have "t + (h + C - t) = h + C" using assms by simp
  then show ?thesis using ring_count_cases [OF assms] assms False by simp
qed

lemma ring_index_other:
  fixes h t C i :: nat
  assumes "h < C" "t < C" "i < (h + C - t) mod C"
  shows "(t + i) mod C \<noteq> h"
proof (cases "t \<le> h")
  case True
  with assms have "i < h - t" using ring_count_cases [OF assms(1,2)] by simp
  with True assms have "t + i < h" "t + i < C" by simp_all
  then show ?thesis by simp
next
  case False
  with assms have i: "i < h + C - t" using ring_count_cases [OF assms(1,2)] by simp
  show ?thesis
  proof (cases "t + i < C")
    case True
    with False show ?thesis by simp
  next
    case False
    then have "(t + i) mod C = t + i - C"
      using assms i by (simp add: mod_if)
    with i False show ?thesis by simp
  qed
qed

lemma ring_count_tail:
  fixes h t C :: nat
  assumes "h < C" "t < C" "h \<noteq> t"
  shows "(h + C - t) mod C = Suc ((h + C - Suc t mod C) mod C)"
proof (cases "Suc t = C")
  case True
  then have m: "Suc t mod C = 0" by simp
  from True assms have "\<not> t \<le> h" by simp
  then have "(h + C - t) mod C = h + C - t" using ring_count_cases [OF assms(1,2)] by simp
  then show ?thesis using m True assms by simp
next
  case False
  with assms have lt: "Suc t < C" by simp
  then have m: "Suc t mod C = Suc t" by simp
  have l: "(h + C - t) mod C = (if t \<le> h then h - t else h + C - t)"
    using ring_count_cases [OF assms(1,2)] .
  have r: "(h + C - Suc t) mod C = (if Suc t \<le> h then h - Suc t else h + C - Suc t)"
    using ring_count_cases [OF assms(1) lt] .
  show ?thesis
  proof (cases "t \<le> h")
    case True
    with assms have "Suc t \<le> h" by simp
    then show ?thesis using l r m True by simp
  next
    case False
    then show ?thesis using l r m assms by simp
  qed
qed

lemma ring_index_tail:
  fixes t C i :: nat
  shows "(Suc t mod C + i) mod C = (t + Suc i) mod C"
  by (simp add: mod_add_left_eq)

section \<open>Put and get on the queue\<close>

lemma rb_wf_init:
  "length (debugBuffer buf) = DEBUG_BUFFER_SIZE \<Longrightarrow> rb_wf (snd (debug_buffer_init buf))"
  using rb_inv_init [of buf] by (simp add: rb_wf_def debug_buffer_init_def)

lemma rb_wf_put: "rb_wf buf \<Longrightarrow> rb_wf (snd (debug_buffer_put buf data))"
  using rb_inv_put [of buf data] by (simp add: rb_wf_def debug_buffer_put_def)

lemma rb_wf_get: "rb_wf buf \<Longrightarrow> rb_wf (snd (debug_buffer_get buf))"
  using rb_inv_get [of buf] by (simp add: rb_wf_def debug_buffer_get_def)

lemma rb_contents_init: "rb_contents (snd (debug_buffer_init buf)) = []"
  by (simp add: rb_contents_def rb_count_def debug_buffer_init_def)

lemma rb_contents_put:
  assumes wf: "rb_wf buf" and nf: "\<not> debug_buffer_is_full buf"
  shows "rb_contents (snd (debug_buffer_put buf data)) = rb_contents buf @ [data]"
proof -
  let ?h = "unat (debugHead buf)" and ?t = "unat (debugTail buf)" and ?C = DEBUG_BUFFER_SIZE
  let ?b' = "snd (debug_buffer_put buf data)"
  from wf have h: "?h < ?C" and t: "?t < ?C" and len: "length (debugBuffer buf) = ?C"
    by (simp_all add: rb_wf_def rb_inv_def)
  from nf have ne: "Suc ?h mod ?C \<noteq> ?t"
    by (simp add: debug_buffer_is_full_def)
  have b': "debugBuffer ?b' = (debugBuffer buf)[?h := data]"
    "unat (debugHead ?b') = Suc ?h mod ?C" "debugTail ?b' = debugTail buf"
    using nf by (simp_all add: debug_buffer_put_def unat_cursor_step)
  have cnt: "rb_count ?b' = Suc (rb_count buf)"
    unfolding rb_count_def b' using ring_count_suc [OF h t ne] .
  have last: "(debugBuffer buf)[?h := data] ! ((?t + rb_count buf) mod ?C) = data"
    unfolding rb_count_def using ring_index_head [OF h t] h len by simp
  have other: "(debugBuffer buf)[?h := data] ! ((?t + i) mod ?C)
                 = debugBuffer buf ! ((?t + i) mod ?C)" if "i < rb_count buf" for i
    using ring_index_other [OF h t, of i] that unfolding rb_count_def by simp
  show ?thesis
    unfolding rb_contents_def cnt b' using last other by simp
qed

lemma rb_contents_put_full:
  "debug_buffer_is_full buf \<Longrightarrow> snd (debug_buffer_put buf data) = buf"
  by (simp add: debug_buffer_put_def)

lemma rb_contents_get:
  assumes wf: "rb_wf buf" and ne: "\<not> debug_buffer_is_empty buf"
  shows "\<exists>x. fst (debug_buffer_get buf) = Some x \<and>
             rb_contents buf = x # rb_contents (snd (debug_buffer_get buf))"
proof -
  let ?h = "unat (debugHead buf)" and ?t = "unat (debugTail buf)" and ?C = DEBUG_BUFFER_SIZE
  let ?b' = "snd (debug_buffer_get buf)"
  from wf have h: "?h < ?C" and t: "?t < ?C"
    by (simp_all add: rb_wf_def rb_inv_def)
  from ne have neq: "?h \<noteq> ?t"
    by (simp add: debug_buffer_is_empty_def word_unat_eq_iff)
  have b': "debugBuffer ?b' = debugBuffer buf"
    "unat (debugTail ?b') = Suc ?t mod ?C" "debugHead ?b' = debugHead buf"
    using ne by (simp_all add: debug_buffer_get_def unat_cursor_step)
  have cnt: "rb_count buf = Suc (rb_count ?b')"
    unfolding rb_count_def b' using ring_count_tail [OF h t neq] .
  have fst: "fst (debug_buffer_get buf) = Some (debugBuffer buf ! ?t)"
    using ne by (simp add: debug_buffer_get_def)
  have "rb_contents buf = debugBuffer buf ! ?t # rb_contents ?b'"
    unfolding rb_contents_def cnt b'
    using t by (simp add: upt_conv_Cons map_Suc_upt [symmetric] ring_index_tail del: upt_Suc)
  with fst show ?thesis by simp
qed

lemma rb_run_queue:
  "rb_wf buf \<Longrightarrow> rb_admissible calls buf \<Longrightarrow>
     fst (rb_run calls buf) = map Some (take (rb_gets calls) (rb_contents buf @ rb_puts calls)) \<and>
     rb_contents (snd (rb_run calls buf)) = drop (rb_gets calls) (rb_contents buf @ rb_puts calls)"
proof (induction calls buf rule: rb_run.induct)
  case (1 buf)
  then show ?case by simp
next
  case (2 data calls buf)
  then have nf: "\<not> debug_buffer_is_full buf"
    and adm: "rb_admissible calls (snd (debug_buffer_put buf data))"
    by simp_all
  from "2.IH" [OF rb_wf_put [OF "2.prems"(1)] adm] rb_contents_put [OF "2.prems"(1) nf]
  show ?case by simp
next
  case (3 calls buf)
  then have ne: "\<not> debug_buffer_is_empty buf"
    and adm: "rb_admissible calls (snd (debug_buffer_get buf))"
    by simp_all
  from rb_contents_get [OF "3.prems"(1) ne] obtain x where
    x: "fst (debug_buffer_get buf) = Some x"
       "rb_contents buf = x # rb_contents (snd (debug_buffer_get buf))"
    by blast
  from "3.IH" [OF rb_wf_get [OF "3.prems"(1)] adm] x
  show ?case by simp
qed

lemma rb_reachable_inv: "rb_reachable buf \<Longrightarrow> rb_inv buf"
  by (induction rule: rb_reachable.induct) (simp_all add: rb_inv_init rb_inv_put rb_inv_get)

lemma debug_buffer_puts_cursors:
  "debugTail buf = 0 \<Longrightarrow> unat (debugHead buf) + length cs < DEBUG_BUFFER_SIZE \<Longrightarrow>
     debugTail (debug_buffer_puts cs buf) = 0 \<and>
     unat (debugHead (debug_buffer_puts cs buf)) = unat (debugHead buf) + length cs"
proof (induction cs arbitrary: buf)
  case Nil
  then show ?case by simp
next
  case (Cons c cs)
  let ?b = "snd (debug_buffer_put buf c)"
  from Cons.prems have lt: "Suc (unat (debugHead buf)) < DEBUG_BUFFER_SIZE"
    by simp
  then have m: "Suc (unat (debugHead buf)) mod DEBUG_BUFFER_SIZE = Suc (unat (debugHead buf))"
    by simp
  with Cons.prems have nf: "\<not> debug_buffer_is_full buf"
    by (simp add: debug_buffer_is_full_def)
  then have "debugTail ?b = debugTail buf"
    "debugHead ?b = of_nat (Suc (unat (debugHead buf)) mod DEBUG_BUFFER_SIZE)"
    by (simp_all add: debug_buffer_put_def)
  then have b: "debugTail ?b = 0" "unat (debugHead ?b) = Suc (unat (debugHead buf))"
    using Cons.prems(1) m unat_cursor_step [of "unat (debugHead buf)"] by simp_all
  with Cons.prems have "unat (debugHead ?b) + length cs < DEBUG_BUFFER_SIZE"
    by simp
  from Cons.IH [OF b(1) this] b show ?case
    by simp
qed

lemma debug_buffer_puts_init:
  assumes "length cs < DEBUG_BUFFER_SIZE"
  shows "debugTail (debug_buffer_puts cs (snd (debug_buffer_init buf0))) = 0"
    and "unat (debugHead (debug_buffer_puts cs (snd (debug_buffer_init buf0)))) = length cs"
  using debug_buffer_puts_cursors [of "snd (debug_buffer_init buf0)" cs] assms
  by (simp_all add: debug_buffer_init_def)

section \<open>Claims about the ring buffer\<close>

text \<open>
  Claim C1 (FIFO). Start from an initialised buffer and make any sequence of put and get
  calls in which no put meets a full buffer and no get an empty one. Then the gets
  return, in order, the first bytes that were put: the k gets of the sequence return the
  first k bytes passed to put.
\<close>

theorem ring_buffer_fifo:
  assumes "length (debugBuffer buf0) = DEBUG_BUFFER_SIZE"
    and "rb_admissible calls (snd (debug_buffer_init buf0))"
  shows "fst (rb_run calls (snd (debug_buffer_init buf0))) =
           map Some (take (rb_gets calls) (rb_puts calls))"
  using rb_run_queue [OF rb_wf_init [OF assms(1)] assms(2)]
  by (simp add: rb_contents_init)

theorem ring_buffer_fifo_witness:
  "length (debugBuffer \<lparr>debugBuffer = replicate 100 CHR ''?'', debugHead = 7, debugTail = 3\<rparr>)
     = DEBUG_BUFFER_SIZE \<and>
   rb_admissible [Put CHR ''a'', Put CHR ''b'', Get, Put CHR ''c'', Get, Get]
     (snd (debug_buffer_init
        \<lparr>debugBuffer = replicate 100 CHR ''?'', debugHead = 7, debugTail = 3\<rparr>)) \<and>
   fst (rb_run [Put CHR ''a'', Put CHR ''b'', Get, Put CHR ''c'', Get, Get]
     (snd (debug_buffer_init
        \<lparr>debugBuffer = replicate 100 CHR ''?'', debugHead = 7, debugTail = 3\<rparr>)))
     = [Some CHR ''a'', Some CHR ''b'', Some CHR ''c'']"
proof -
  let ?b = "\<lparr>debugBuffer = replicate 100 CHR ''?'', debugHead = 7, debugTail = 3\<rparr>"
  let ?cs = "[Put CHR ''a'', Put CHR ''b'', Get, Put CHR ''c'', Get, Get]"
  have len: "length (debugBuffer ?b) = DEBUG_BUFFER_SIZE"
    by (simp add: DEBUG_BUFFER_SIZE_def)
  have adm: "rb_admissible ?cs (snd (debug_buffer_init ?b))"
    by (simp add: debug_buffer_init_def debug_buffer_put_def debug_buffer_get_def
        debug_buffer_is_full_def debug_buffer_is_empty_def DEBUG_BUFFER_SIZE_def)
  show ?thesis
    using len adm ring_buffer_fifo [OF len adm] by simp
qed

text \<open>
  Claim C2, as the code has it. \<^verbatim>\<open>debug_buffer_put\<close> is a \<^verbatim>\<open>void\<close> function, so
  it returns neither true nor false; what it does to the buffer is as claimed. Starting
  from an initialised buffer, each of the first \<open>DEBUG_BUFFER_SIZE - 1\<close> puts meets a
  buffer that is not full (so it stores its byte); after them the buffer is full, and one
  more put leaves head, tail and storage as they were. A put on any buffer that is not
  full stores the byte at \<open>storage[head]\<close> and advances head to
  \<open>(head + 1) mod DEBUG_BUFFER_SIZE\<close>, changing nothing else.
\<close>

theorem put_capacity:
  assumes "length cs = DEBUG_BUFFER_SIZE - 1"
  shows "(\<forall>n<length cs.
            \<not> debug_buffer_is_full (debug_buffer_puts (take n cs) (snd (debug_buffer_init buf0)))) \<and>
         debug_buffer_is_full (debug_buffer_puts cs (snd (debug_buffer_init buf0))) \<and>
         snd (debug_buffer_put (debug_buffer_puts cs (snd (debug_buffer_init buf0))) data)
           = debug_buffer_puts cs (snd (debug_buffer_init buf0)) \<and>
         (\<not> debug_buffer_is_full buf \<longrightarrow>
            snd (debug_buffer_put buf data) =
              buf\<lparr>debugBuffer := (debugBuffer buf)[unat (debugHead buf) := data],
                  debugHead := of_nat ((unat (debugHead buf) + 1) mod DEBUG_BUFFER_SIZE)\<rparr>)"
proof (intro conjI allI impI)
  fix n assume n: "n < length cs"
  with assms have "length (take n cs) < DEBUG_BUFFER_SIZE" "length (take n cs) = n"
    by simp_all
  from debug_buffer_puts_init [OF this(1), of buf0] this(2) n assms
  show "\<not> debug_buffer_is_full (debug_buffer_puts (take n cs) (snd (debug_buffer_init buf0)))"
    by (simp add: debug_buffer_is_full_def DEBUG_BUFFER_SIZE_def)
next
  from assms have "length cs < DEBUG_BUFFER_SIZE"
    by (simp add: DEBUG_BUFFER_SIZE_def)
  from debug_buffer_puts_init [OF this, of buf0] assms
  show full: "debug_buffer_is_full (debug_buffer_puts cs (snd (debug_buffer_init buf0)))"
    by (simp add: debug_buffer_is_full_def DEBUG_BUFFER_SIZE_def)
  then show "snd (debug_buffer_put (debug_buffer_puts cs (snd (debug_buffer_init buf0))) data)
           = debug_buffer_puts cs (snd (debug_buffer_init buf0))"
    by (simp add: debug_buffer_put_def)
next
  assume "\<not> debug_buffer_is_full buf"
  then show "snd (debug_buffer_put buf data) =
              buf\<lparr>debugBuffer := (debugBuffer buf)[unat (debugHead buf) := data],
                  debugHead := of_nat ((unat (debugHead buf) + 1) mod DEBUG_BUFFER_SIZE)\<rparr>"
    by (simp add: debug_buffer_put_def)
qed

theorem put_capacity_witness:
  "length (replicate 99 CHR ''a'') = DEBUG_BUFFER_SIZE - 1 \<and>
   (5::nat) < length (replicate 99 CHR ''a'') \<and>
   \<not> debug_buffer_is_full (debug_buffer_puts (take 5 (replicate 99 CHR ''a''))
       (snd (debug_buffer_init
          \<lparr>debugBuffer = replicate 100 CHR ''-'', debugHead = 17, debugTail = 4\<rparr>))) \<and>
   debug_buffer_is_full (debug_buffer_puts (replicate 99 CHR ''a'')
       (snd (debug_buffer_init
          \<lparr>debugBuffer = replicate 100 CHR ''-'', debugHead = 17, debugTail = 4\<rparr>))) \<and>
   snd (debug_buffer_put (debug_buffer_puts (replicate 99 CHR ''a'')
       (snd (debug_buffer_init
          \<lparr>debugBuffer = replicate 100 CHR ''-'', debugHead = 17, debugTail = 4\<rparr>))) CHR ''b'')
     = debug_buffer_puts (replicate 99 CHR ''a'')
       (snd (debug_buffer_init
          \<lparr>debugBuffer = replicate 100 CHR ''-'', debugHead = 17, debugTail = 4\<rparr>)) \<and>
   \<not> debug_buffer_is_full \<lparr>debugBuffer = replicate 100 CHR ''-'', debugHead = 99, debugTail = 98\<rparr> \<and>
   snd (debug_buffer_put
       \<lparr>debugBuffer = replicate 100 CHR ''-'', debugHead = 99, debugTail = 98\<rparr> CHR ''b'')
     = \<lparr>debugBuffer = (replicate 99 CHR ''-'') @ [CHR ''b''], debugHead = 0, debugTail = 98\<rparr>"
proof -
  let ?cs = "replicate 99 CHR ''a''"
  let ?z = "\<lparr>debugBuffer = replicate 100 CHR ''-'', debugHead = 17, debugTail = 4\<rparr>"
  let ?w = "\<lparr>debugBuffer = replicate 100 CHR ''-'', debugHead = 99, debugTail = 98\<rparr>"
  have len: "length ?cs = DEBUG_BUFFER_SIZE - 1"
    by (simp add: DEBUG_BUFFER_SIZE_def)
  have nf: "\<not> debug_buffer_is_full ?w"
    by (simp add: debug_buffer_is_full_def DEBUG_BUFFER_SIZE_def)
  have upd: "(replicate 100 CHR ''-'')[99 := CHR ''b''] = replicate 99 CHR ''-'' @ [CHR ''b'']"
    by code_simp
  note t = put_capacity [OF len, of ?z "CHR ''b''" ?w]
  from t have 1: "\<not> debug_buffer_is_full (debug_buffer_puts (take 5 ?cs) (snd (debug_buffer_init ?z)))"
    by simp
  from t nf have 2: "snd (debug_buffer_put ?w CHR ''b'') =
      \<lparr>debugBuffer = (replicate 99 CHR ''-'') @ [CHR ''b''], debugHead = 0, debugTail = 98\<rparr>"
    by (simp add: DEBUG_BUFFER_SIZE_def upd)
  from len nf t 1 2 show ?thesis
    by simp
qed

text \<open>
  Claim C2 as stated fails: the value a put returns on a full buffer is the value it
  returns on a buffer that is not full, so no result tells a dropped byte from a stored
  one.
\<close>

theorem put_result_counterexample:
  "debug_buffer_is_full \<lparr>debugBuffer = replicate 100 CHR ''-'', debugHead = 99, debugTail = 0\<rparr> \<and>
   \<not> debug_buffer_is_full \<lparr>debugBuffer = replicate 100 CHR ''-'', debugHead = 0, debugTail = 0\<rparr> \<and>
   fst (debug_buffer_put
          \<lparr>debugBuffer = replicate 100 CHR ''-'', debugHead = 99, debugTail = 0\<rparr> CHR ''a'')
     = fst (debug_buffer_put
          \<lparr>debugBuffer = replicate 100 CHR ''-'', debugHead = 0, debugTail = 0\<rparr> CHR ''a'')"
  by (simp add: debug_buffer_is_full_def DEBUG_BUFFER_SIZE_def)

text \<open>
  Claim C3. The cursor range \<open>head < DEBUG_BUFFER_SIZE\<close>, \<open>tail < DEBUG_BUFFER_SIZE\<close>
  (the cursors are unsigned, so they are never negative) holds after init and is kept by
  put and by get; \<^verbatim>\<open>debug_buffer_is_empty\<close> and \<^verbatim>\<open>debug_buffer_is_full\<close> write nothing.
  In every reachable buffer the range holds, is_empty is true exactly when head equals
  tail, is_full is true exactly when \<open>(head + 1) mod DEBUG_BUFFER_SIZE\<close> equals tail, and
  the two are never both true.
\<close>

theorem ring_buffer_invariant:
  "rb_inv (snd (debug_buffer_init buf0)) \<and>
   (rb_inv buf \<longrightarrow>
      rb_inv (snd (debug_buffer_put buf data)) \<and> rb_inv (snd (debug_buffer_get buf))) \<and>
   (rb_reachable buf \<longrightarrow>
      unat (debugHead buf) < DEBUG_BUFFER_SIZE \<and> unat (debugTail buf) < DEBUG_BUFFER_SIZE \<and>
      (debug_buffer_is_empty buf \<longleftrightarrow> debugHead buf = debugTail buf) \<and>
      (debug_buffer_is_full buf \<longleftrightarrow>
         (unat (debugHead buf) + 1) mod DEBUG_BUFFER_SIZE = unat (debugTail buf)) \<and>
      \<not> (debug_buffer_is_empty buf \<and> debug_buffer_is_full buf))"
proof (intro conjI impI)
  show "rb_inv (snd (debug_buffer_init buf0))"
    by (rule rb_inv_init)
next
  assume "rb_inv buf"
  then show "rb_inv (snd (debug_buffer_put buf data))"
    by (rule rb_inv_put)
next
  assume "rb_inv buf"
  then show "rb_inv (snd (debug_buffer_get buf))"
    by (rule rb_inv_get)
next
  assume "rb_reachable buf"
  then have "rb_inv buf"
    by (rule rb_reachable_inv)
  then show "unat (debugHead buf) < DEBUG_BUFFER_SIZE" "unat (debugTail buf) < DEBUG_BUFFER_SIZE"
    by (simp_all add: rb_inv_def)
next
  show "debug_buffer_is_empty buf \<longleftrightarrow> debugHead buf = debugTail buf"
    by (simp add: debug_buffer_is_empty_def)
next
  show "debug_buffer_is_full buf \<longleftrightarrow>
         (unat (debugHead buf) + 1) mod DEBUG_BUFFER_SIZE = unat (debugTail buf)"
    by (simp add: debug_buffer_is_full_def)
next
  show "\<not> (debug_buffer_is_empty buf \<and> debug_buffer_is_full buf)"
    by (rule not_empty_and_full)
qed

theorem ring_buffer_invariant_witness:
  "rb_inv \<lparr>debugBuffer = replicate 100 CHR ''-'', debugHead = 99, debugTail = 98\<rparr> \<and>
   rb_inv (snd (debug_buffer_put
      \<lparr>debugBuffer = replicate 100 CHR ''-'', debugHead = 99, debugTail = 98\<rparr> CHR ''a'')) \<and>
   rb_inv (snd (debug_buffer_get
      \<lparr>debugBuffer = replicate 100 CHR ''-'', debugHead = 99, debugTail = 98\<rparr>)) \<and>
   rb_reachable (snd (debug_buffer_put (snd (debug_buffer_init
      \<lparr>debugBuffer = replicate 100 CHR ''-'', debugHead = 200, debugTail = 150\<rparr>)) CHR ''a'')) \<and>
   unat (debugHead (snd (debug_buffer_put (snd (debug_buffer_init
      \<lparr>debugBuffer = replicate 100 CHR ''-'', debugHead = 200, debugTail = 150\<rparr>)) CHR ''a'')))
     < DEBUG_BUFFER_SIZE \<and>
   \<not> debug_buffer_is_empty (snd (debug_buffer_put (snd (debug_buffer_init
      \<lparr>debugBuffer = replicate 100 CHR ''-'', debugHead = 200, debugTail = 150\<rparr>)) CHR ''a''))"
proof -
  let ?b = "\<lparr>debugBuffer = replicate 100 CHR ''-'', debugHead = 99, debugTail = 98\<rparr>"
  let ?z = "\<lparr>debugBuffer = replicate 100 CHR ''-'', debugHead = 200, debugTail = 150\<rparr>"
  let ?r = "snd (debug_buffer_put (snd (debug_buffer_init ?z)) CHR ''a'')"
  have inv: "rb_inv ?b"
    by (simp add: rb_inv_def DEBUG_BUFFER_SIZE_def)
  have reach: "rb_reachable ?r"
    by (intro rb_reachable.intros)
  have ne: "\<not> debug_buffer_is_empty ?r"
    by (simp add: debug_buffer_is_empty_def debug_buffer_put_def debug_buffer_init_def
        debug_buffer_is_full_def DEBUG_BUFFER_SIZE_def)
  from ring_buffer_invariant [of ?z ?b "CHR ''a''"] inv
  have 1: "rb_inv (snd (debug_buffer_put ?b CHR ''a''))" "rb_inv (snd (debug_buffer_get ?b))"
    by blast+
  from ring_buffer_invariant [of ?z ?r "CHR ''a''"] reach
  have 2: "unat (debugHead ?r) < DEBUG_BUFFER_SIZE"
    by blast
  from inv 1 reach 2 ne show ?thesis
    by blast
qed

text \<open>
  Claim C9. A get on an empty buffer returns failure and leaves the whole buffer, that is
  head, tail and storage, as it was.
\<close>

theorem get_on_empty:
  "debug_buffer_is_empty buf \<Longrightarrow> debug_buffer_get buf = (None, buf)"
  by (simp add: debug_buffer_get_def)

theorem get_on_empty_witness:
  "debug_buffer_is_empty \<lparr>debugBuffer = replicate 100 CHR ''x'', debugHead = 42, debugTail = 42\<rparr> \<and>
   debug_buffer_get \<lparr>debugBuffer = replicate 100 CHR ''x'', debugHead = 42, debugTail = 42\<rparr>
     = (None, \<lparr>debugBuffer = replicate 100 CHR ''x'', debugHead = 42, debugTail = 42\<rparr>)"
proof -
  have e: "debug_buffer_is_empty
      \<lparr>debugBuffer = replicate 100 CHR ''x'', debugHead = 42, debugTail = 42\<rparr>"
    by (simp add: debug_buffer_is_empty_def)
  show ?thesis
    using e get_on_empty [OF e] by simp
qed

section \<open>Facts about the driver\<close>

lemma armed_cli [simp]: "armed (cli s) = armed s"
  by (simp add: armed_def cli_def)

lemma armed_sei [simp]: "armed (sei s) = armed s"
  by (simp add: armed_def sei_def)

lemma UCSR1B_uart1_print_char:
  "UCSR1B (uart1_print_char data s) =
     (if debug_buffer_is_empty (debugTxBuffer s) then UCSR1B s OR push_bit UDRIE1 1 else UCSR1B s)"
  by (simp add: uart1_print_char_def uart1_print_char_locked_def cli_def sei_def Let_def)

lemma debugTxBuffer_uart1_print_char:
  "debugTxBuffer (uart1_print_char data s) = snd (debug_buffer_put (debugTxBuffer s) data)"
  by (simp add: uart1_print_char_def uart1_print_char_locked_def cli_def sei_def Let_def)

lemma not_empty_after_put:
  "\<not> debug_buffer_is_empty (snd (debug_buffer_put buf data))"
proof (cases "debug_buffer_is_full buf")
  case True
  with not_empty_and_full [of buf] show ?thesis
    by (simp add: debug_buffer_put_def)
next
  case False
  have "unat (debugHead (snd (debug_buffer_put buf data)))
          = Suc (unat (debugHead buf)) mod DEBUG_BUFFER_SIZE"
    using False by (simp add: debug_buffer_put_def unat_cursor_step)
  moreover have "debugTail (snd (debug_buffer_put buf data)) = debugTail buf"
    using False by (simp add: debug_buffer_put_def)
  ultimately show ?thesis
    using False by (auto simp add: debug_buffer_is_empty_def debug_buffer_is_full_def)
qed

lemma armed_emit:
  "armed (uart1_print_char data s) \<longleftrightarrow> armed s \<or> debug_buffer_is_empty (debugTxBuffer s)"
  by (simp add: armed_def UCSR1B_uart1_print_char bit_or_iff bit_push_bit_iff UDRIE1_def)

lemma armed_drain:
  "armed (USART1_UDRE_vect s) \<longleftrightarrow> armed s \<and> \<not> debug_buffer_is_empty (debugTxBuffer s)"
  by (simp add: armed_def USART1_UDRE_vect_def debug_buffer_get_def bit_and_iff bit_not_iff
      bit_push_bit_iff UDRIE1_def)

lemma armed_begin:
  "debugSerialBegin F_CPU debugBaud s = Some s' \<Longrightarrow> armed s'"
  by (auto simp add: debugSerialBegin_def armed_def Let_def bit_or_iff bit_push_bit_iff
      UDRIE1_def TXEN1_def split: if_splits)

section \<open>Claims about the driver\<close>

text \<open>
  Claim C4, as the code has it. Among the driver's calls, the interrupt goes from disarmed
  to armed only in \<^verbatim>\<open>debugSerialBegin\<close> (which sets \<^verbatim>\<open>UDRIE1\<close> whatever the buffer holds)
  and in \<^verbatim>\<open>uart1_print_char\<close>, and there only when the buffer was empty before the put;
  it goes from armed to disarmed only in the interrupt routine and only when that finds
  the buffer empty. A \<^verbatim>\<open>uart1_print_char\<close> on a buffer that is not empty leaves \<^verbatim>\<open>UCSR1B\<close>
  as it was, and so does the second of two calls in succession, from any state.
\<close>

theorem udrie_transitions:
  "(driver_step F_CPU call s = Some s' \<and> \<not> armed s \<and> armed s' \<longrightarrow>
      (\<exists>debugBaud. call = Begin debugBaud) \<or>
      (\<exists>data. call = Emit data) \<and> debug_buffer_is_empty (debugTxBuffer s)) \<and>
   (driver_step F_CPU call s = Some s' \<and> armed s \<and> \<not> armed s' \<longrightarrow>
      call = Drain \<and> debug_buffer_is_empty (debugTxBuffer s)) \<and>
   (\<not> debug_buffer_is_empty (debugTxBuffer s) \<longrightarrow>
      UCSR1B (uart1_print_char data s) = UCSR1B s) \<and>
   UCSR1B (uart1_print_char data2 (uart1_print_char data s)) = UCSR1B (uart1_print_char data s)"
proof -
  have arm: "(\<exists>debugBaud. call = Begin debugBaud) \<or>
      (\<exists>data. call = Emit data) \<and> debug_buffer_is_empty (debugTxBuffer s)"
    if h: "driver_step F_CPU call s = Some s' \<and> \<not> armed s \<and> armed s'"
  proof (cases call)
    case (Begin b)
    then show ?thesis by simp
  next
    case (Emit d)
    with h show ?thesis by (auto simp add: armed_emit)
  next
    case Drain
    with h show ?thesis by (auto simp add: armed_drain)
  qed
  have disarm: "call = Drain \<and> debug_buffer_is_empty (debugTxBuffer s)"
    if h: "driver_step F_CPU call s = Some s' \<and> armed s \<and> \<not> armed s'"
  proof (cases call)
    case (Begin b)
    with h armed_begin [of F_CPU b s s'] show ?thesis by simp
  next
    case (Emit d)
    with h show ?thesis by (auto simp add: armed_emit)
  next
    case Drain
    with h show ?thesis by (auto simp add: armed_drain)
  qed
  have keep: "UCSR1B (uart1_print_char data s) = UCSR1B s"
    if "\<not> debug_buffer_is_empty (debugTxBuffer s)"
    using that by (simp add: UCSR1B_uart1_print_char)
  have twice: "UCSR1B (uart1_print_char data2 (uart1_print_char data s))
      = UCSR1B (uart1_print_char data s)"
    using not_empty_after_put [of "debugTxBuffer s" data]
    by (simp add: UCSR1B_uart1_print_char [of data2] debugTxBuffer_uart1_print_char)
  from arm disarm keep twice show ?thesis
    by blast
qed

theorem udrie_transitions_witness:
  "driver_step 16000000 (Emit CHR ''a'') mcu_zero = Some (uart1_print_char CHR ''a'' mcu_zero) \<and>
   \<not> armed mcu_zero \<and> armed (uart1_print_char CHR ''a'' mcu_zero) \<and>
   debug_buffer_is_empty (debugTxBuffer mcu_zero) \<and>
   driver_step 16000000 Drain (mcu_zero\<lparr>UCSR1B := 40\<rparr>)
     = Some (USART1_UDRE_vect (mcu_zero\<lparr>UCSR1B := 40\<rparr>)) \<and>
   armed (mcu_zero\<lparr>UCSR1B := 40\<rparr>) \<and> \<not> armed (USART1_UDRE_vect (mcu_zero\<lparr>UCSR1B := 40\<rparr>)) \<and>
   debug_buffer_is_empty (debugTxBuffer (mcu_zero\<lparr>UCSR1B := 40\<rparr>)) \<and>
   \<not> debug_buffer_is_empty (debugTxBuffer (USART1_UDRE_vect (uart1_print_char CHR ''a''
        (uart1_print_char CHR ''b'' mcu_zero)))) \<and>
   UCSR1B (uart1_print_char CHR ''c'' (USART1_UDRE_vect (uart1_print_char CHR ''a''
        (uart1_print_char CHR ''b'' mcu_zero))))
     = UCSR1B (USART1_UDRE_vect (uart1_print_char CHR ''a'' (uart1_print_char CHR ''b'' mcu_zero)))"
proof -
  let ?a = "mcu_zero\<lparr>UCSR1B := 40\<rparr>"
  let ?q = "USART1_UDRE_vect (uart1_print_char CHR ''a'' (uart1_print_char CHR ''b'' mcu_zero))"
  have e1: "driver_step 16000000 (Emit CHR ''a'') mcu_zero = Some (uart1_print_char CHR ''a'' mcu_zero)"
    by simp
  have e2: "\<not> armed mcu_zero"
    by (simp add: armed_def mcu_zero_def UDRIE1_def)
  have e3: "armed (uart1_print_char CHR ''a'' mcu_zero)"
    by (simp add: armed_def mcu_zero_def UDRIE1_def uart1_print_char_def
        uart1_print_char_locked_def cli_def sei_def debug_buffer_is_empty_def
        debug_buffer_put_def debug_buffer_is_full_def DEBUG_BUFFER_SIZE_def)
  have d1: "driver_step 16000000 Drain ?a = Some (USART1_UDRE_vect ?a)"
    by simp
  have d2: "armed ?a"
    by (simp add: armed_def mcu_zero_def UDRIE1_def)
  have d3: "\<not> armed (USART1_UDRE_vect ?a)"
    by (simp add: armed_def mcu_zero_def UDRIE1_def USART1_UDRE_vect_def
        debug_buffer_get_def debug_buffer_is_empty_def)
  have q: "\<not> debug_buffer_is_empty (debugTxBuffer ?q)"
    by (simp add: mcu_zero_def USART1_UDRE_vect_def uart1_print_char_def
        uart1_print_char_locked_def cli_def sei_def debug_buffer_is_empty_def
        debug_buffer_get_def debug_buffer_put_def debug_buffer_is_full_def DEBUG_BUFFER_SIZE_def)
  from udrie_transitions [of 16000000 "Emit CHR ''a''" mcu_zero "uart1_print_char CHR ''a'' mcu_zero"]
    e1 e2 e3
  have c1: "debug_buffer_is_empty (debugTxBuffer mcu_zero)"
    by blast
  from udrie_transitions [of 16000000 Drain ?a "USART1_UDRE_vect ?a"] d1 d2 d3
  have c2: "debug_buffer_is_empty (debugTxBuffer ?a)"
    by blast
  from udrie_transitions [of _ _ ?q _ "CHR ''c''"] q
  have c3: "UCSR1B (uart1_print_char CHR ''c'' ?q) = UCSR1B ?q"
    by blast
  from e1 e2 e3 c1 d1 d2 d3 c2 q c3 show ?thesis
    by blast
qed

text \<open>
  Claim C4 as stated fails: \<^verbatim>\<open>debugSerialBegin\<close> arms a disarmed interrupt, and it is
  not \<^verbatim>\<open>uart1_print_char\<close>.
\<close>

theorem begin_arms_counterexample:
  "\<not> armed mcu_zero \<and>
   map_option armed (driver_step 16000000 (Begin 9600) mcu_zero) = Some True"
  by (simp add: armed_def mcu_zero_def UDRIE1_def TXEN1_def debugSerialBegin_def Let_def
      bit_or_iff bit_push_bit_iff)

text \<open>
  Claim C5, as the code has it. In every call of \<^verbatim>\<open>uart1_print_char\<close> the global
  interrupt flag is cleared on entry, is still clear at the end of the section between
  \<^verbatim>\<open>cli()\<close> and \<^verbatim>\<open>sei()\<close>, and is set when the call returns, also when the buffer is
  full and the put drops the byte. So the flag has its value at entry again when
  interrupts were enabled at entry.
\<close>

theorem interrupt_flag_bracket:
  "\<not> SREG_I (cli s) \<and>
   \<not> SREG_I (uart1_print_char_locked data (cli s)) \<and>
   uart1_print_char data s = sei (uart1_print_char_locked data (cli s)) \<and>
   SREG_I (uart1_print_char data s) \<and>
   (SREG_I s \<longrightarrow> SREG_I (uart1_print_char data s) = SREG_I s) \<and>
   (debug_buffer_is_full (debugTxBuffer s) \<longrightarrow>
      debugTxBuffer (uart1_print_char data s) = debugTxBuffer s \<and>
      SREG_I (uart1_print_char data s))"
  by (simp add: uart1_print_char_def uart1_print_char_locked_def cli_def sei_def Let_def
      debug_buffer_put_def)

theorem interrupt_flag_bracket_witness:
  "SREG_I (mcu_zero\<lparr>SREG_I := True\<rparr>) \<and>
   SREG_I (uart1_print_char CHR ''a'' (mcu_zero\<lparr>SREG_I := True\<rparr>))
     = SREG_I (mcu_zero\<lparr>SREG_I := True\<rparr>) \<and>
   debug_buffer_is_full (debugTxBuffer (mcu_zero\<lparr>debugTxBuffer :=
      \<lparr>debugBuffer = replicate 100 CHR ''-'', debugHead = 4, debugTail = 5\<rparr>\<rparr>)) \<and>
   debugTxBuffer (uart1_print_char CHR ''a'' (mcu_zero\<lparr>debugTxBuffer :=
      \<lparr>debugBuffer = replicate 100 CHR ''-'', debugHead = 4, debugTail = 5\<rparr>\<rparr>))
     = \<lparr>debugBuffer = replicate 100 CHR ''-'', debugHead = 4, debugTail = 5\<rparr> \<and>
   SREG_I (uart1_print_char CHR ''a'' (mcu_zero\<lparr>debugTxBuffer :=
      \<lparr>debugBuffer = replicate 100 CHR ''-'', debugHead = 4, debugTail = 5\<rparr>\<rparr>))"
proof -
  let ?e = "mcu_zero\<lparr>SREG_I := True\<rparr>"
  let ?f = "mcu_zero\<lparr>debugTxBuffer :=
      \<lparr>debugBuffer = replicate 100 CHR ''-'', debugHead = 4, debugTail = 5\<rparr>\<rparr>"
  have e: "SREG_I ?e"
    by simp
  have f: "debug_buffer_is_full (debugTxBuffer ?f)"
    by (simp add: debug_buffer_is_full_def DEBUG_BUFFER_SIZE_def)
  from interrupt_flag_bracket [of ?e "CHR ''a''"] e
  have 1: "SREG_I (uart1_print_char CHR ''a'' ?e) = SREG_I ?e"
    by blast
  from interrupt_flag_bracket [of ?f "CHR ''a''"] f
  have 2: "debugTxBuffer (uart1_print_char CHR ''a'' ?f) = debugTxBuffer ?f \<and>
      SREG_I (uart1_print_char CHR ''a'' ?f)"
    by blast
  from e f 1 2 show ?thesis
    by simp
qed

text \<open>
  Claim C5 as stated fails: called with interrupts disabled, \<^verbatim>\<open>uart1_print_char\<close> returns
  with interrupts enabled.
\<close>

theorem interrupt_flag_counterexample:
  "\<not> SREG_I mcu_zero \<and> SREG_I (uart1_print_char CHR ''a'' mcu_zero) \<noteq> SREG_I mcu_zero"
  by (simp add: mcu_zero_def uart1_print_char_def sei_def)

section \<open>Facts about printing an integer\<close>

lemma debugPrintInt_extract_bound:
  "sint v < 10 ^ k \<Longrightarrow> count + k \<le> length digits \<Longrightarrow>
     \<exists>ds c. debugPrintInt_extract v digits count = Some (ds, c) \<and>
            c \<le> count + k \<and> length ds = length digits"
proof (induction k arbitrary: v digits count)
  case 0
  then have "\<not> 0 < sint v"
    by simp
  then show ?case
    by (subst debugPrintInt_extract.simps) simp
next
  case (Suc k)
  show ?case
  proof (cases "0 < sint v")
    case False
    then show ?thesis
      by (subst debugPrintInt_extract.simps) simp
  next
    case True
    let ?v = "word_of_int (sint v sdiv 10) :: 32 word"
    let ?d = "digits[count := char_of (48 + sint v smod 10)]"
    from Suc.prems have lt: "count < length digits"
      by simp
    from Suc.prems(1) have "sint v div 10 < 10 ^ k"
      by simp
    then have v: "sint ?v < 10 ^ k"
      using sint_sdiv_10 [OF True] by simp
    from Suc.prems(2) have c: "Suc count + k \<le> length ?d"
      by simp
    from Suc.IH [OF v c] obtain ds c where
      r: "debugPrintInt_extract ?v ?d (Suc count) = Some (ds, c)"
        "c \<le> Suc count + k" "length ds = length ?d"
      by blast
    have "debugPrintInt_extract v digits count = debugPrintInt_extract ?v ?d (Suc count)"
      using True lt by (subst debugPrintInt_extract.simps) simp
    with r show ?thesis
      by simp
  qed
qed

lemma debugPrintInt_emit_fold:
  "count \<le> length digits \<Longrightarrow>
     debugPrintInt_emit digits count s = fold uart1_print_char (rev (take count digits)) s"
proof (induction count arbitrary: s)
  case 0
  then show ?case by simp
next
  case (Suc count)
  then have "take (Suc count) digits = take count digits @ [digits ! count]"
    by (simp add: take_Suc_conv_app_nth)
  with Suc show ?case
    by simp
qed

lemma debugPrintInt_nonneg:
  assumes "\<not> sint v < 0" and "v \<noteq> 0"
    and "debugPrintInt_extract v (replicate 10 (CHR 0x00)) 0 = Some (digits, count)"
    and "count \<le> length digits"
  shows "debugPrintInt v s = Some (fold uart1_print_char (rev (take count digits)) s)"
  using assms debugPrintInt_emit_fold [of count digits s]
  unfolding debugPrintInt_def by simp

lemma debugPrintInt_negative:
  assumes "sint v < 0" and "- v \<noteq> 0"
    and "debugPrintInt_extract (- v) (replicate 10 (CHR 0x00)) 0 = Some (digits, count)"
    and "count \<le> length digits"
  shows "debugPrintInt v s =
     Some (fold uart1_print_char (CHR ''-'' # rev (take count digits)) s)"
  using assms debugPrintInt_emit_fold [of count digits "uart1_print_char CHR ''-'' s"]
  unfolding debugPrintInt_def by simp

lemma debugPrintInt_extract_12345:
  "debugPrintInt_extract 12345 (replicate 10 (CHR 0x00)) 0
     = Some (''54321'' @ replicate 5 (CHR 0x00), 5)"
  by code_simp

lemma debugPrintInt_extract_1:
  "debugPrintInt_extract 1 (replicate 10 (CHR 0x00)) 0
     = Some (''1'' @ replicate 9 (CHR 0x00), 1)"
  by code_simp

lemma debugPrintInt_extract_6789:
  "debugPrintInt_extract 6789 (replicate 10 (CHR 0x00)) 0
     = Some (''9876'' @ replicate 6 (CHR 0x00), 4)"
  by code_simp

lemma debugPrintInt_extract_max:
  "debugPrintInt_extract 2147483647 (replicate 10 (CHR 0x00)) 0
     = Some (''7463847412'', 10)"
  by code_simp

lemma debugPrintInt_extract_min:
  "debugPrintInt_extract (- (- 2147483648)) (replicate 10 (CHR 0x00)) 0
     = Some (replicate 10 (CHR 0x00), 0)"
  by code_simp

section \<open>Claims about printing an integer\<close>

text \<open>
  Claim C6. \<^verbatim>\<open>debugPrintInt\<close> does to any state what the calls of \<^verbatim>\<open>uart1_print_char\<close> on
  the bytes of the decimal string, in order, do: \<open>0\<close> for 0, \<open>-1\<close> for -1, \<open>12345\<close> for
  12345, \<open>-6789\<close> for -6789 and \<open>2147483647\<close> for 2147483647, with the minus sign first,
  the most significant digit next and no leading zero.
\<close>

theorem print_int_examples:
  "debugPrintInt 0 s = Some (fold uart1_print_char ''0'' s) \<and>
   debugPrintInt (- 1) s = Some (fold uart1_print_char ''-1'' s) \<and>
   debugPrintInt 12345 s = Some (fold uart1_print_char ''12345'' s) \<and>
   debugPrintInt (- 6789) s = Some (fold uart1_print_char ''-6789'' s) \<and>
   debugPrintInt 2147483647 s = Some (fold uart1_print_char ''2147483647'' s)"
proof -
  have p0: "debugPrintInt 0 s = Some (fold uart1_print_char ''0'' s)"
    by (simp add: debugPrintInt_def)
  have p1: "debugPrintInt (- 1) s = Some (fold uart1_print_char ''-1'' s)"
    using debugPrintInt_negative [of "- 1" "''1'' @ replicate 9 (CHR 0x00)" 1 s]
      debugPrintInt_extract_1
    by simp
  have p2: "debugPrintInt 12345 s = Some (fold uart1_print_char ''12345'' s)"
    using debugPrintInt_nonneg [OF _ _ debugPrintInt_extract_12345, of s] by simp
  have p3: "debugPrintInt (- 6789) s = Some (fold uart1_print_char ''-6789'' s)"
    using debugPrintInt_negative [of "- 6789" "''9876'' @ replicate 6 (CHR 0x00)" 4 s]
      debugPrintInt_extract_6789
    by simp
  have p4: "debugPrintInt 2147483647 s = Some (fold uart1_print_char ''2147483647'' s)"
    using debugPrintInt_nonneg [OF _ _ debugPrintInt_extract_max, of s] by simp
  from p0 p1 p2 p3 p4 show ?thesis
    by simp
qed

text \<open>
  Claim C8. For the input \<open>-2147483648\<close> the negation wraps to the same value, which is
  not greater than zero: the first loop leaves the array and the count 0 as they are, and
  the whole call does what the single call \<^verbatim>\<open>uart1_print_char('-')\<close> does.
\<close>

theorem print_int_min:
  "- (- 2147483648 :: 32 word) = - 2147483648 \<and>
   \<not> 0 < sint (- (- 2147483648 :: 32 word)) \<and>
   debugPrintInt_extract (- (- 2147483648)) digits 0 = Some (digits, 0) \<and>
   debugPrintInt (- 2147483648) s = Some (uart1_print_char CHR ''-'' s)"
proof -
  have w: "- (- 2147483648 :: 32 word) = - 2147483648"
    by simp
  have n: "\<not> 0 < sint (- (- 2147483648 :: 32 word))"
    by simp
  have l: "debugPrintInt_extract (- (- 2147483648)) digits 0 = Some (digits, 0)"
    using n by (subst debugPrintInt_extract.simps) simp
  have p: "debugPrintInt (- 2147483648) s = Some (uart1_print_char CHR ''-'' s)"
    using debugPrintInt_negative [of "- 2147483648" "replicate 10 (CHR 0x00)" 0 s]
      debugPrintInt_extract_min
    by simp
  from w n l p show ?thesis
    by blast
qed

text \<open>
  Claim C10. For every 32-bit value the first loop of \<^verbatim>\<open>debugPrintInt\<close> ends with every
  write inside the 10-cell array: it returns the array and a count of at most 10, never
  the out-of-bounds result. So \<^verbatim>\<open>debugPrintInt\<close> returns on every input.
\<close>

theorem digit_loop_in_bounds:
  "(\<exists>digits count.
      debugPrintInt_extract value (replicate 10 (CHR 0x00)) 0 = Some (digits, count) \<and>
      count \<le> 10 \<and> length digits = 10) \<and>
   (\<exists>s'. debugPrintInt value s = Some s')"
proof -
  have lt: "sint w < 10 ^ 10" for w :: "32 word"
    using sint_lt [of w] by simp
  have ex: "\<exists>digits count.
      debugPrintInt_extract w (replicate 10 (CHR 0x00)) 0 = Some (digits, count) \<and>
      count \<le> 10 \<and> length digits = 10" for w
    using debugPrintInt_extract_bound [OF lt, of 0 "replicate 10 (CHR 0x00)" w] by simp
  have "\<exists>s'. debugPrintInt value s = Some s'"
    using ex [of "value"] ex [of "- value"]
    by (auto simp add: debugPrintInt_def Let_def)
  with ex [of "value"] show ?thesis
    by blast
qed

section \<open>Facts about printing a floating-point number\<close>

lemma rnd_bounds:
  assumes "rnd_ok rnd" and "a \<le> x" and "x \<le> b" and "1 / 100 \<le> a" and "b \<le> 100"
  shows "a * (999999 / 1000000) \<le> rnd x \<and> rnd x \<le> b * (1000001 / 1000000)"
proof -
  from assms have x: "1 / 100 \<le> \<bar>x\<bar> \<and> \<bar>x\<bar> \<le> 100" "0 \<le> x"
    by simp_all
  with assms(1) have "\<bar>rnd x - x\<bar> \<le> \<bar>x\<bar> / 1000000"
    unfolding rnd_ok_def by blast
  with x(2) have "x - x / 1000000 \<le> rnd x" "rnd x \<le> x + x / 1000000"
    by linarith+
  with assms(2,3) show ?thesis
    by linarith
qed

lemma prod_bounds:
  fixes a b c d x y :: rat
  assumes "a \<le> x" "x \<le> b" "c \<le> y" "y \<le> d" "0 \<le> a" "0 \<le> c"
  shows "a * c \<le> x * y \<and> x * y \<le> b * d"
  using assms by (simp add: mult_mono)

lemma f2i_eq:
  assumes "of_int k \<le> x" and "x < of_int k + 1" and "0 \<le> k"
  shows "f2i x = k"
proof -
  from assms have "0 \<le> x"
    by (meson of_int_0_le_iff order_trans)
  moreover from assms have "\<lfloor>x\<rfloor> = k"
    by (simp add: floor_unique)
  ultimately show ?thesis
    by (simp add: f2i_def)
qed

lemma rnd_of_int_bounds:
  assumes "rnd_ok rnd" and "1 \<le> k" and "k \<le> 100"
  shows "of_int k * (999999 / 1000000) \<le> rnd (of_int k) \<and>
         rnd (of_int k) \<le> of_int k * (1000001 / 1000000)"
proof -
  from assms(2,3) have "(1 / 100 :: rat) \<le> of_int k" "(of_int k :: rat) \<le> 100"
    by simp_all
  from rnd_bounds [OF assms(1) order_refl order_refl this] show ?thesis .
qed

lemma debugPrintFloat_loop_step:
  assumes ok: "rnd_ok rnd"
    and d: "lo \<le> d" "d \<le> hi" and hi: "hi \<le> 1"
    and k: "1 \<le> k" "k \<le> 9"
    and kl: "of_int k * (1000001 / 1000000) + 1 / 100 \<le> lo * (99999 / 10000)"
    and kh: "hi * (100001 / 10000) < of_int k + 1"
  shows "debugPrintFloat_loop rnd (Suc n) d s =
           debugPrintFloat_loop rnd n (rnd (rnd (d * rnd 10) - rnd (of_int k)))
             (uart1_print_char (char_of (48 + k)) s)"
    and "(lo * (99999 / 10000) - of_int k * (1000001 / 1000000)) * (999999 / 1000000)
           \<le> rnd (rnd (d * rnd 10) - rnd (of_int k))"
    and "rnd (rnd (d * rnd 10) - rnd (of_int k))
           \<le> (hi * (100001 / 10000) - of_int k * (999999 / 1000000)) * (1000001 / 1000000)"
proof -
  let ?p = "rnd (d * rnd 10)"
  from k have k1: "(1 :: rat) \<le> of_int k" and k9: "(of_int k :: rat) \<le> 9"
    by simp_all
  from kl k1 have lo: "1 / 10 \<le> lo"
    by linarith
  have r10: "10 * (999999 / 1000000) \<le> rnd 10 \<and> rnd 10 \<le> 10 * (1000001 / 1000000)"
    using rnd_of_int_bounds [OF ok, of 10] by simp
  have prod: "lo * (10 * (999999 / 1000000)) \<le> d * rnd 10 \<and>
              d * rnd 10 \<le> hi * (10 * (1000001 / 1000000))"
    using prod_bounds [OF d conjunct1 [OF r10] conjunct2 [OF r10]] lo by simp
  have pl: "1 / 100 \<le> lo * (10 * (999999 / 1000000))"
    using lo by linarith
  have ph: "hi * (10 * (1000001 / 1000000)) \<le> 100"
    using hi by linarith
  from rnd_bounds [OF ok conjunct1 [OF prod] conjunct2 [OF prod] pl ph]
  have p: "lo * (10 * (999999 / 1000000)) * (999999 / 1000000) \<le> ?p"
    "?p \<le> hi * (10 * (1000001 / 1000000)) * (1000001 / 1000000)"
    by simp_all
  from d lo have hi0: "0 \<le> hi"
    by linarith
  from p(1) lo have pL: "lo * (99999 / 10000) \<le> ?p"
    by linarith
  from p(2) hi0 have pH: "?p \<le> hi * (100001 / 10000)"
    by linarith
  have rk: "of_int k * (999999 / 1000000) \<le> rnd (of_int k)"
    "rnd (of_int k) \<le> of_int k * (1000001 / 1000000)"
    using rnd_of_int_bounds [OF ok, of k] k by simp_all
  have "of_int k \<le> ?p"
    using pL kl k1 by linarith
  moreover have "?p < of_int k + 1"
    using pH kh by linarith
  ultimately have digit: "f2i ?p = k"
    using k by (intro f2i_eq) simp_all
  show "debugPrintFloat_loop rnd (Suc n) d s =
           debugPrintFloat_loop rnd n (rnd (rnd (d * rnd 10) - rnd (of_int k)))
             (uart1_print_char (char_of (48 + k)) s)"
    using digit k by (simp add: Let_def)
  have dl: "lo * (99999 / 10000) - of_int k * (1000001 / 1000000) \<le> ?p - rnd (of_int k)"
    using pL rk(2) by linarith
  have dh: "?p - rnd (of_int k) \<le> hi * (100001 / 10000) - of_int k * (999999 / 1000000)"
    using pH rk(1) by linarith
  have dl0: "1 / 100 \<le> lo * (99999 / 10000) - of_int k * (1000001 / 1000000)"
    using kl by linarith
  have dh0: "hi * (100001 / 10000) - of_int k * (999999 / 1000000) \<le> 100"
    using hi k1 by linarith
  from rnd_bounds [OF ok dl dh dl0 dh0]
  show "(lo * (99999 / 10000) - of_int k * (1000001 / 1000000)) * (999999 / 1000000)
           \<le> rnd (rnd (d * rnd 10) - rnd (of_int k))"
    and "rnd (rnd (d * rnd 10) - rnd (of_int k))
           \<le> (hi * (100001 / 10000) - of_int k * (999999 / 1000000)) * (1000001 / 1000000)"
    by simp_all
qed

lemma debugPrintInt_extract_3:
  "debugPrintInt_extract 3 (replicate 10 (CHR 0x00)) 0
     = Some (''3'' @ replicate 9 (CHR 0x00), 1)"
  by code_simp

lemma debugPrintInt_extract_42:
  "debugPrintInt_extract 42 (replicate 10 (CHR 0x00)) 0
     = Some (''24'' @ replicate 8 (CHR 0x00), 2)"
  by code_simp

lemma debugPrintInt_3: "debugPrintInt 3 s = Some (fold uart1_print_char ''3'' s)"
  using debugPrintInt_nonneg [OF _ _ debugPrintInt_extract_3, of s] by simp

lemma debugPrintInt_42: "debugPrintInt 42 s = Some (fold uart1_print_char ''42'' s)"
  using debugPrintInt_nonneg [OF _ _ debugPrintInt_extract_42, of s] by simp

lemma char_of_digits:
  "char_of (49::int) = CHR ''1''" "char_of (52::int) = CHR ''4''"
  by code_simp+

section \<open>Claims about printing a floating-point number\<close>

text \<open>
  Claim C7. Whatever the rounding of the float arithmetic, as long as it is accurate to
  one part in a million on the magnitudes between 1/100 and 100:
  \<^verbatim>\<open>debugPrintFloat(3.14159, 3)\<close> does what the calls of \<^verbatim>\<open>uart1_print_char\<close> on the bytes
  of \<open>3.141\<close> do (the digits are cut, not rounded), and \<^verbatim>\<open>debugPrintFloat(42.718, 0)\<close> does
  what the calls on the bytes of \<open>42\<close> do, with no decimal point.
\<close>

theorem print_float_examples:
  assumes ok: "\<forall>x. 1 / 100 \<le> \<bar>x\<bar> \<and> \<bar>x\<bar> \<le> 100 \<longrightarrow> \<bar>rnd x - x\<bar> \<le> \<bar>x\<bar> / 1000000"
  shows "debugPrintFloat rnd (rnd (314159 / 100000)) 3 s
           = Some (fold uart1_print_char ''3.141'' s) \<and>
         debugPrintFloat rnd (rnd (42718 / 1000)) 0 s
           = Some (fold uart1_print_char ''42'' s)"
proof -
  from ok have ok: "rnd_ok rnd"
    by (simp add: rnd_ok_def)
  let ?v = "rnd (314159 / 100000)"
  have v: "314159 / 100000 * (999999 / 1000000) \<le> ?v" "?v \<le> 314159 / 100000 * (1000001 / 1000000)"
    using rnd_bounds [OF ok order_refl order_refl, of "314159 / 100000"] by simp_all
  then have v0: "\<not> ?v < 0" and vi: "f2i ?v = 3"
    by (simp, intro f2i_eq, simp_all)
  have r3: "3 * (999999 / 1000000) \<le> rnd 3" "rnd 3 \<le> 3 * (1000001 / 1000000)"
    using rnd_of_int_bounds [OF ok, of 3] by simp_all
  let ?d0 = "rnd (?v - rnd 3)"
  have d0: "1415 / 10000 \<le> ?d0" "?d0 \<le> 1417 / 10000"
  proof -
    have l: "14158 / 100000 \<le> ?v - rnd 3" and h: "?v - rnd 3 \<le> 14160 / 100000"
      using v r3 by linarith+
    from rnd_bounds [OF ok l h] show "1415 / 10000 \<le> ?d0" "?d0 \<le> 1417 / 10000"
      by simp_all
  qed
  let ?d1 = "rnd (rnd (?d0 * rnd 10) - rnd (of_int 1))"
  note s1 = debugPrintFloat_loop_step [OF ok d0, of 1]
  have e1: "debugPrintFloat_loop rnd (Suc n) ?d0 t =
      debugPrintFloat_loop rnd n ?d1 (uart1_print_char CHR ''1'' t)" for n t
    using s1(1) [of n t] by (simp add: char_of_digits del: debugPrintFloat_loop.simps)
  have d1: "414 / 1000 \<le> ?d1" "?d1 \<le> 418 / 1000"
    using s1(2,3) by simp_all
  let ?d2 = "rnd (rnd (?d1 * rnd 10) - rnd (of_int 4))"
  note s2 = debugPrintFloat_loop_step [OF ok d1, of 4]
  have e2: "debugPrintFloat_loop rnd (Suc n) ?d1 t =
      debugPrintFloat_loop rnd n ?d2 (uart1_print_char CHR ''4'' t)" for n t
    using s2(1) [of n t] by (simp add: char_of_digits del: debugPrintFloat_loop.simps)
  have d2: "139 / 1000 \<le> ?d2" "?d2 \<le> 181 / 1000"
    using s2(2,3) by simp_all
  let ?d3 = "rnd (rnd (?d2 * rnd 10) - rnd (of_int 1))"
  note s3 = debugPrintFloat_loop_step [OF ok d2, of 1]
  have e3: "debugPrintFloat_loop rnd (Suc n) ?d2 t =
      debugPrintFloat_loop rnd n ?d3 (uart1_print_char CHR ''1'' t)" for n t
    using s3(1) [of n t] by (simp add: char_of_digits del: debugPrintFloat_loop.simps)
  have loop: "debugPrintFloat_loop rnd 3 ?d0 t = Some (fold uart1_print_char ''141'' t)" for t
    using e1 [of "Suc (Suc 0)" t] e2 [of "Suc 0" "uart1_print_char CHR ''1'' t"]
      e3 [of 0 "uart1_print_char CHR ''4'' (uart1_print_char CHR ''1'' t)"]
    by (simp add: numeral_3_eq_3)
  have a: "debugPrintFloat rnd ?v 3 s = Some (fold uart1_print_char ''3.141'' s)"
    using v0 vi loop [of "uart1_print_char CHR ''.'' (uart1_print_char CHR ''3'' s)"]
    by (simp add: debugPrintFloat_def debugPrintInt_3)
  let ?w = "rnd (42718 / 1000)"
  have w: "42718 / 1000 * (999999 / 1000000) \<le> ?w" "?w \<le> 42718 / 1000 * (1000001 / 1000000)"
    using rnd_bounds [OF ok order_refl order_refl, of "42718 / 1000"] by simp_all
  then have w0: "\<not> ?w < 0" and wi: "f2i ?w = 42"
    by (simp, intro f2i_eq, simp_all)
  have b: "debugPrintFloat rnd ?w 0 s = Some (fold uart1_print_char ''42'' s)"
    using w0 wi by (simp add: debugPrintFloat_def debugPrintInt_42)
  from a b show ?thesis
    by simp
qed

theorem print_float_examples_witness:
  "debugPrintFloat (\<lambda>y. y) (314159 / 100000) 3 mcu_zero
     = Some (fold uart1_print_char ''3.141'' mcu_zero) \<and>
   debugPrintFloat (\<lambda>y. y) (42718 / 1000) 0 mcu_zero
     = Some (fold uart1_print_char ''42'' mcu_zero)"
proof -
  have h: "\<forall>x::rat. 1 / 100 \<le> \<bar>x\<bar> \<and> \<bar>x\<bar> \<le> 100 \<longrightarrow> \<bar>(\<lambda>y. y) x - x\<bar> \<le> \<bar>x\<bar> / 1000000"
    by simp
  from print_float_examples [OF h, of mcu_zero] show ?thesis
    by simp
qed

end
